theory Spec2Isabelle
  imports Complex_Main "HOL-Library.AList" "HOL-Library.Char_ord" "HOL-Library.List_Lexorder"
begin

section \<open>Values, strings and errors\<close>

text \<open>
  The scrapers hand the aggregator dictionaries from field names to values. The values
  that occur are \<^verbatim>\<open>None\<close>, numbers and strings. Numbers are modelled as exact
  rationals: the binary representation error of Python floats is not part of the model.
  A Python string is modelled as the list of its code points, for code points below 256.
  Every exception of the source is a value of type \<open>error\<close>; a function that can raise
  returns \<open>error + 'a\<close>, with \<open>Inl\<close> for the exception.
\<close>

datatype val = VNone | VNum rat | VStr string

datatype error = IndexError | AttributeError | TypeError | ValueError | OverflowError

type_synonym player = "string \<rightharpoonup> val"

text \<open>A fixed text for \<^verbatim>\<open>str(e)\<close> of each exception above; the interpreter's wording is longer.\<close>

fun str_error :: "error \<Rightarrow> string" where
  "str_error IndexError = ''list index out of range''"
| "str_error AttributeError = ''object has no attribute lower''"
| "str_error TypeError = ''unsupported operand type(s)''"
| "str_error ValueError = ''invalid literal for int() with base 10''"
| "str_error OverflowError = ''date value out of range''"

text \<open>Truthiness, as \<^verbatim>\<open>if x:\<close> tests it.\<close>

fun truthy :: "val \<Rightarrow> bool" where
  "truthy VNone = False"
| "truthy (VNum q) = (q \<noteq> 0)"
| "truthy (VStr s) = (s \<noteq> [])"

text \<open>
  \<^verbatim>\<open>str.isspace\<close>, \<^verbatim>\<open>str.lower\<close>, \<^verbatim>\<open>str.strip()\<close> and
  \<^verbatim>\<open>str.split()\<close> on code points below 256.
\<close>

definition is_space :: "char \<Rightarrow> bool" where
  "is_space c = (let n = (of_char c :: nat) in
     (9 \<le> n \<and> n \<le> 13) \<or> (28 \<le> n \<and> n \<le> 32) \<or> n = 133 \<or> n = 160)"

definition lower_char :: "char \<Rightarrow> char" where
  "lower_char c = (let n = (of_char c :: nat) in
     if (65 \<le> n \<and> n \<le> 90) \<or> (192 \<le> n \<and> n \<le> 222 \<and> n \<noteq> 215)
     then char_of (n + 32) else c)"

definition lower :: "string \<Rightarrow> string" where
  "lower s = map lower_char s"

definition strip :: "string \<Rightarrow> string" where
  "strip s = rev (dropWhile is_space (rev (dropWhile is_space s)))"

fun split_aux :: "string \<Rightarrow> string \<Rightarrow> string list" where
  "split_aux cur [] = (if cur = [] then [] else [cur])"
| "split_aux cur (c # cs) =
     (if is_space c then (if cur = [] then split_aux [] cs else cur # split_aux [] cs)
      else split_aux (cur @ [c]) cs)"

definition split :: "string \<Rightarrow> string list" where
  "split s = split_aux [] s"

text \<open>
  \<^verbatim>\<open>round(x, 1)\<close>: the nearest multiple of one tenth, a tie going to the even
  multiple.
\<close>

definition py_round1 :: "rat \<Rightarrow> rat" where
  "py_round1 x =
     (let y = x * 10; n = \<lfloor>y\<rfloor>; d = y - of_int n
      in of_int (if d < 1 / 2 then n else if 1 / 2 < d then n + 1
                 else if even n then n else n + 1) / 10)"

text \<open>
  \<^verbatim>\<open>max(a, b)\<close> and \<^verbatim>\<open>round((a + b) / 2, 1)\<close> on values: numbers compare
  with numbers and strings with strings; every other pair raises \<^verbatim>\<open>TypeError\<close>.
\<close>

fun py_max :: "val \<Rightarrow> val \<Rightarrow> error + val" where
  "py_max (VNum a) (VNum b) = Inr (VNum (max a b))"
| "py_max (VStr a) (VStr b) = Inr (VStr (max a b))"
| "py_max _ _ = Inl TypeError"

fun py_pair_mean :: "val \<Rightarrow> val \<Rightarrow> error + val" where
  "py_pair_mean (VNum a) (VNum b) = Inr (VNum (py_round1 ((a + b) / 2)))"
| "py_pair_mean _ _ = Inl TypeError"

section \<open>Entity resolver: the match key\<close>

text \<open>
  \<^verbatim>\<open>
  def _generate_player_key(self, name, club):
      n = name.lower().strip().split()
      key_name = f"{n[0]}_{n[-1]}" if len(n) > 1 else n[0]
      return f"{key_name}_{club.lower().strip()}"
  \<close>
  A value that is not a string has no \<^verbatim>\<open>lower\<close>; \<^verbatim>\<open>n[0]\<close> on the empty
  list raises \<^verbatim>\<open>IndexError\<close>.
\<close>

fun generate_player_key :: "val \<Rightarrow> val \<Rightarrow> error + string" where
  "generate_player_key (VStr name) club =
     (let n = split (strip (lower name)) in
      case n of
        [] \<Rightarrow> Inl IndexError
      | t # ts \<Rightarrow>
          (let key_name = (if length n > 1 then t @ ''_'' @ last n else t) in
           case club of
             VStr c \<Rightarrow> Inr (key_name @ ''_'' @ strip (lower c))
           | _ \<Rightarrow> Inl AttributeError))"
| "generate_player_key _ club = Inl AttributeError"

text \<open>\<^verbatim>\<open>player.get(k, '')\<close>: the default only replaces a missing key.\<close>

definition get_or_empty :: "player \<Rightarrow> string \<Rightarrow> val" where
  "get_or_empty p k = (case p k of None \<Rightarrow> VStr [] | Some v \<Rightarrow> v)"

definition player_key :: "player \<Rightarrow> error + string" where
  "player_key p = generate_player_key (get_or_empty p ''name'') (get_or_empty p ''club'')"

section \<open>Field merger\<close>

text \<open>
  The merged record of a cluster is a dictionary with the keys \<^verbatim>\<open>league\<close>,
  \<^verbatim>\<open>sources\<close> and \<^verbatim>\<open>last_updated\<close>, set when the cluster is created, and the
  attribute keys that \<^verbatim>\<open>_merge_player_info\<close> writes. The three fixed keys are
  never among the attribute names, so the record keeps them apart from the attribute
  dictionary \<open>attrs\<close>. \<open>sources\<close> is insertion-ordered, as a Python dictionary is.
\<close>

record merged =
  league :: string
  sources :: "(string \<times> player) list"
  last_updated :: int
  attrs :: "string \<rightharpoonup> val"

definition field_names :: "string list" where
  "field_names = [''name'', ''age'', ''position'', ''club'', ''nationality'', ''market_value'',
     ''rating'', ''goals'', ''assists'', ''matches'', ''minutes_played'',
     ''yellow_cards'', ''red_cards'']"

definition id_fields :: "string list" where
  "id_fields = [''fbref_id'', ''transfermarkt_id'', ''sofascore_id'', ''asa_id'']"

definition stats :: "string list" where
  "stats = [''xg'', ''xa'', ''xg_per_90'', ''xa_per_90'', ''key_passes'', ''dribbles'']"

text \<open>
  One round of the first loop of \<^verbatim>\<open>_merge_player_info\<close>, for the field \<open>f\<close>:
  \<^verbatim>\<open>
  if f in new_data and new_data[f] is not None:
      if f == 'market_value' and f in merged:
          merged[f] = max(merged.get(f, 0), new_data[f])
      elif f == 'rating' and f in merged:
          merged[f] = round((merged.get(f, 0) + new_data[f]) / 2, 1)
      else:
          if f not in merged or merged[f] is None:
              merged[f] = new_data[f]
  \<close>
  \<open>merge_field_val\<close> computes the new entry of \<open>f\<close> from the old one.
\<close>

definition merge_field_val :: "player \<Rightarrow> string \<Rightarrow> val option \<Rightarrow> error + val option" where
  "merge_field_val new_data f old =
     (case new_data f of
        None \<Rightarrow> Inr old
      | Some VNone \<Rightarrow> Inr old
      | Some v \<Rightarrow>
          (if f = ''market_value'' \<and> old \<noteq> None then
             (case py_max (the old) v of Inl e \<Rightarrow> Inl e | Inr r \<Rightarrow> Inr (Some r))
           else if f = ''rating'' \<and> old \<noteq> None then
             (case py_pair_mean (the old) v of Inl e \<Rightarrow> Inl e | Inr r \<Rightarrow> Inr (Some r))
           else if old = None \<or> old = Some VNone then Inr (Some v)
           else Inr old))"

definition merge_field :: "player \<Rightarrow> (string \<rightharpoonup> val) \<Rightarrow> string \<Rightarrow> error + (string \<rightharpoonup> val)" where
  "merge_field new_data m f =
     (case merge_field_val new_data f (m f) of
        Inl e \<Rightarrow> Inl e
      | Inr r \<Rightarrow> Inr (m(f := r)))"

fun merge_fields :: "player \<Rightarrow> string list \<Rightarrow> (string \<rightharpoonup> val) \<Rightarrow> error + (string \<rightharpoonup> val)" where
  "merge_fields new_data [] m = Inr m"
| "merge_fields new_data (f # fs) m =
     (case merge_field new_data m f of
        Inl e \<Rightarrow> Inl e
      | Inr m' \<Rightarrow> merge_fields new_data fs m')"

text \<open>
  The second and third loops:
  \<^verbatim>\<open>
  for idf in [...]:
      if idf in new_data and new_data[idf]:
          merged[idf] = new_data[idf]
  for s in stats:
      if s in new_data and new_data[s] is not None:
          merged[s] = new_data[s]
  \<close>
\<close>

definition merge_id :: "player \<Rightarrow> (string \<rightharpoonup> val) \<Rightarrow> string \<Rightarrow> (string \<rightharpoonup> val)" where
  "merge_id new_data m idf =
     (case new_data idf of
        Some v \<Rightarrow> (if truthy v then m(idf \<mapsto> v) else m)
      | None \<Rightarrow> m)"

definition merge_stat :: "player \<Rightarrow> (string \<rightharpoonup> val) \<Rightarrow> string \<Rightarrow> (string \<rightharpoonup> val)" where
  "merge_stat new_data m s =
     (case new_data s of
        Some v \<Rightarrow> (if v \<noteq> VNone then m(s \<mapsto> v) else m)
      | None \<Rightarrow> m)"

definition merge_player_info :: "merged \<Rightarrow> player \<Rightarrow> string \<Rightarrow> error + merged" where
  "merge_player_info m new_data source =
     (let m1 = m\<lparr>sources := AList.update source new_data (sources m)\<rparr> in
      case merge_fields new_data field_names (attrs m1) of
        Inl e \<Rightarrow> Inl e
      | Inr a1 \<Rightarrow>
          (let a2 = foldl (merge_id new_data) a1 id_fields;
               a3 = foldl (merge_stat new_data) a2 stats
           in Inr (m1\<lparr>attrs := a3\<rparr>)))"

text \<open>
  \<^verbatim>\<open>_merge_player_data\<close>, first loop. \<open>merged_players\<close> is an insertion-ordered
  dictionary from match key to merged record; a key seen for the first time gets a fresh
  record. The clock reading for \<^verbatim>\<open>last_updated\<close> is the parameter \<open>now\<close>.
  \<^verbatim>\<open>
  for source, players in source_data.items():
      for player in players:
          key = self._generate_player_key(player.get('name', ''), player.get('club', ''))
          if key not in merged_players:
              merged_players[key] = {'league': league, 'sources': {}, 'last_updated': datetime.now()}
          self._merge_player_info(merged_players[key], player, source)
  \<close>
\<close>

definition new_cluster :: "string \<Rightarrow> int \<Rightarrow> merged" where
  "new_cluster lg now = \<lparr>league = lg, sources = [], last_updated = now, attrs = Map.empty\<rparr>"

definition merge_one ::
  "string \<Rightarrow> int \<Rightarrow> string \<Rightarrow> (string \<times> merged) list \<Rightarrow> player \<Rightarrow> error + (string \<times> merged) list" where
  "merge_one lg now source mp player =
     (case player_key player of
        Inl e \<Rightarrow> Inl e
      | Inr key \<Rightarrow>
          (let cur = (case map_of mp key of None \<Rightarrow> new_cluster lg now | Some m \<Rightarrow> m) in
           case merge_player_info cur player source of
             Inl e \<Rightarrow> Inl e
           | Inr m' \<Rightarrow> Inr (AList.update key m' mp)))"

fun merge_players ::
  "string \<Rightarrow> int \<Rightarrow> string \<Rightarrow> (string \<times> merged) list \<Rightarrow> player list \<Rightarrow> error + (string \<times> merged) list" where
  "merge_players lg now source mp [] = Inr mp"
| "merge_players lg now source mp (p # ps) =
     (case merge_one lg now source mp p of
        Inl e \<Rightarrow> Inl e
      | Inr mp' \<Rightarrow> merge_players lg now source mp' ps)"

fun merge_sources ::
  "string \<Rightarrow> int \<Rightarrow> (string \<times> merged) list \<Rightarrow> (string \<times> player list) list \<Rightarrow> error + (string \<times> merged) list" where
  "merge_sources lg now mp [] = Inr mp"
| "merge_sources lg now mp ((source, players) # rest) =
     (case merge_players lg now source mp players of
        Inl e \<Rightarrow> Inl e
      | Inr mp' \<Rightarrow> merge_sources lg now mp' rest)"

text \<open>
  Second loop: the rating back-fill.
  \<^verbatim>\<open>
  for pdata in merged_players.values():
      if 'rating' not in pdata and pdata['sources']:
          ratings = [s['rating'] for s in pdata['sources'].values() if s.get('rating')]
          if ratings:
              pdata['rating'] = round(sum(ratings) / len(ratings), 1)
      final_list.append(pdata)
  \<close>
  \<^verbatim>\<open>sum\<close> starts from the integer 0, so a string among the ratings raises.
\<close>

definition reported_ratings :: "merged \<Rightarrow> val list" where
  "reported_ratings pdata =
     List.map_filter
       (\<lambda>(src, s). case s ''rating'' of
                      None \<Rightarrow> None
                    | Some v \<Rightarrow> if truthy v then Some v else None)
       (sources pdata)"

fun py_sum :: "val list \<Rightarrow> error + rat" where
  "py_sum [] = Inr 0"
| "py_sum (VNum q # vs) = (case py_sum vs of Inl e \<Rightarrow> Inl e | Inr t \<Rightarrow> Inr (q + t))"
| "py_sum (_ # vs) = Inl TypeError"

definition backfill_rating :: "merged \<Rightarrow> error + merged" where
  "backfill_rating pdata =
     (if attrs pdata ''rating'' = None \<and> sources pdata \<noteq> [] then
        (let ratings = reported_ratings pdata in
         if ratings \<noteq> [] then
           (case py_sum ratings of
              Inl e \<Rightarrow> Inl e
            | Inr t \<Rightarrow>
                Inr (pdata\<lparr>attrs := (attrs pdata)
                       (''rating'' \<mapsto> VNum (py_round1 (t / of_nat (length ratings))))\<rparr>))
         else Inr pdata)
      else Inr pdata)"

fun final_list :: "merged list \<Rightarrow> error + merged list" where
  "final_list [] = Inr []"
| "final_list (pdata # rest) =
     (case backfill_rating pdata of
        Inl e \<Rightarrow> Inl e
      | Inr pdata' \<Rightarrow> (case final_list rest of Inl e \<Rightarrow> Inl e | Inr fl \<Rightarrow> Inr (pdata' # fl)))"

definition merged_players ::
  "(string \<times> player list) list \<Rightarrow> string \<Rightarrow> int \<Rightarrow> error + (string \<times> merged) list" where
  "merged_players source_data lg now = merge_sources lg now [] source_data"

definition merge_player_data ::
  "(string \<times> player list) list \<Rightarrow> string \<Rightarrow> int \<Rightarrow> error + merged list" where
  "merge_player_data source_data lg now =
     (case merged_players source_data lg now of
        Inl e \<Rightarrow> Inl e
      | Inr mp \<Rightarrow> final_list (map snd mp))"

text \<open>
  The fold of one cluster: the candidates of one match key, in the order in which
  \<^verbatim>\<open>_merge_player_data\<close> meets them, folded by \<^verbatim>\<open>_merge_player_info\<close>.
\<close>

fun fold_cluster :: "merged \<Rightarrow> (string \<times> player) list \<Rightarrow> error + merged" where
  "fold_cluster m [] = Inr m"
| "fold_cluster m ((source, p) # cs) =
     (case merge_player_info m p source of
        Inl e \<Rightarrow> Inl e
      | Inr m' \<Rightarrow> fold_cluster m' cs)"

definition candidates :: "(string \<times> player list) list \<Rightarrow> (string \<times> player) list" where
  "candidates source_data = concat (map (\<lambda>(source, players). map (Pair source) players) source_data)"

definition cluster_of :: "string \<Rightarrow> (string \<times> player) list \<Rightarrow> (string \<times> player) list" where
  "cluster_of key cs = filter (\<lambda>(source, p). player_key p = Inr key) cs"


section \<open>Scraper helper: parse\_number\<close>






section \<open>Database manager: response cache and sync history\<close>

text \<open>
  The tables \<^verbatim>\<open>cache\<close> and \<^verbatim>\<open>sync_history\<close> are lists of rows. An instant is
  an integer count of microseconds since the first instant a \<^verbatim>\<open>datetime\<close> can
  hold; the readings of the clock are parameters. SQLite compares the stored instants
  in the same order. The column \<^verbatim>\<open>created_at\<close> of the cache is read by no
  operation and is left out.
\<close>

record cache_row =
  c_key :: string
  c_value :: string
  c_expiry :: int

record sync_row =
  sh_id :: nat
  sh_league :: string
  sh_source :: string
  sh_status :: string
  sh_records_synced :: nat
  sh_error_message :: "string option"
  sh_started_at :: int
  sh_completed_at :: int

record db =
  cache :: "cache_row list"
  sync_history :: "sync_row list"

text \<open>
  \<^verbatim>\<open>SELECT value FROM cache WHERE key = ? AND expiry > ?\<close> with the key and the
  clock reading; \<^verbatim>\<open>fetchone\<close> gives the first such row or nothing.
\<close>

definition cache_get :: "db \<Rightarrow> string \<Rightarrow> int \<Rightarrow> string option" where
  "cache_get d key now =
     (case find (\<lambda>r. c_key r = key \<and> now < c_expiry r) (cache d) of
        None \<Rightarrow> None
      | Some r \<Rightarrow> Some (c_value r))"

text \<open>
  \<^verbatim>\<open>expiry = datetime.now() + timedelta(seconds=ttl_seconds)\<close>, then
  \<^verbatim>\<open>INSERT OR REPLACE\<close> on the primary key. A \<^verbatim>\<open>timedelta\<close> of more than
  999999999 days and a \<^verbatim>\<open>datetime\<close> outside the years 1 to 9999 raise
  \<^verbatim>\<open>OverflowError\<close>.
\<close>

definition max_datetime :: int where
  "max_datetime = 3652059 * 86400 * 1000000 - 1"

definition cache_set :: "db \<Rightarrow> string \<Rightarrow> string \<Rightarrow> int \<Rightarrow> int \<Rightarrow> error + db" where
  "cache_set d key v ttl_seconds now =
     (if ttl_seconds div 86400 < - 999999999 \<or> 999999999 < ttl_seconds div 86400
      then Inl OverflowError
      else
        (let expiry = now + ttl_seconds * 1000000 in
         if expiry < 0 \<or> max_datetime < expiry then Inl OverflowError
         else Inr (d\<lparr>cache := filter (\<lambda>r. c_key r \<noteq> key) (cache d)
                          @ [\<lparr>c_key = key, c_value = v, c_expiry = expiry\<rparr>]\<rparr>)))"

text \<open>\<^verbatim>\<open>DELETE FROM cache WHERE expiry < ?\<close>; the result is the number of rows deleted.\<close>

definition clear_expired_cache :: "db \<Rightarrow> int \<Rightarrow> db \<times> nat" where
  "clear_expired_cache d now =
     (d\<lparr>cache := filter (\<lambda>r. \<not> c_expiry r < now) (cache d)\<rparr>,
      length (filter (\<lambda>r. c_expiry r < now) (cache d)))"

text \<open>
  \<^verbatim>\<open>log_sync\<close> inserts one row, with both timestamps set to the instant of the
  insertion, and returns the new row's id. No statement of the source updates or
  deletes a row of \<^verbatim>\<open>sync_history\<close>, so the next id is the number of rows plus one.
\<close>

definition log_sync ::
  "db \<Rightarrow> string \<Rightarrow> string \<Rightarrow> string \<Rightarrow> nat \<Rightarrow> string option \<Rightarrow> int \<Rightarrow> db \<times> nat" where
  "log_sync d lg source status records err now =
     (let sync_id = Suc (length (sync_history d)) in
      (d\<lparr>sync_history := sync_history d
            @ [\<lparr>sh_id = sync_id, sh_league = lg, sh_source = source, sh_status = status,
                sh_records_synced = records, sh_error_message = err,
                sh_started_at = now, sh_completed_at = now\<rparr>]\<rparr>,
       sync_id))"

text \<open>A run of cache operations, each at its own clock reading.\<close>

datatype cache_op = Set string string int int | Sweep int

fun run_cache_ops :: "db \<Rightarrow> cache_op list \<Rightarrow> error + db" where
  "run_cache_ops d [] = Inr d"
| "run_cache_ops d (Set key v ttl now # ops) =
     (case cache_set d key v ttl now of
        Inl e \<Rightarrow> Inl e
      | Inr d' \<Rightarrow> run_cache_ops d' ops)"
| "run_cache_ops d (Sweep now # ops) = run_cache_ops (fst (clear_expired_cache d now)) ops"

fun sets_key :: "string \<Rightarrow> cache_op \<Rightarrow> bool" where
  "sets_key k (Set key v ttl now) = (key = k)"
| "sets_key k (Sweep now) = False"

fun op_time :: "cache_op \<Rightarrow> int" where
  "op_time (Set key v ttl now) = now"
| "op_time (Sweep now) = now"

section \<open>Fetch orchestrator: sync\_league\_data\<close>

text \<open>
  An adapter's \<^verbatim>\<open>scrape_league\<close> either returns a list of records or raises; the
  exception is represented by its text \<^verbatim>\<open>str(e)\<close>. The ASA client exists only
  when an API key is configured. The worker pool changes when the adapters run, not
  what the loop over \<^verbatim>\<open>futures\<close> sees: it reads the results in the order in which
  the adapters were submitted.
\<close>

type_synonym fetch = "string \<Rightarrow> string + player list"

record adapters =
  fbref :: fetch
  transfermarkt :: fetch
  sofascore :: fetch
  asa :: "fetch option"

record outcome =
  res_league :: string
  res_started_at :: int
  res_sources :: "(string \<times> nat) list"
  res_total_players :: nat
  res_errors :: "string list"
  res_completed_at :: "int option"
  res_duration :: "rat option"

text \<open>The readings of the clock during one sync, in the order in which they are taken.\<close>

record clock =
  t_log_started :: int
  t_started_at :: int
  t_merge :: int
  t_log_finished :: int
  t_completed_at :: int

definition fetch_with_error_handling ::
  "fetch \<Rightarrow> string \<Rightarrow> string \<Rightarrow> player list \<times> string option" where
  "fetch_with_error_handling fetch_func lg source_name =
     (case fetch_func lg of
        Inr data \<Rightarrow> (data, None)
      | Inl e \<Rightarrow> ([], Some (''Failed to fetch from '' @ source_name @ '': '' @ e)))"

definition submit_all :: "adapters \<Rightarrow> string \<Rightarrow> (string \<times> player list \<times> string option) list" where
  "submit_all ad lg =
     [(''fbref'', fetch_with_error_handling (fbref ad) lg ''FBref''),
      (''transfermarkt'', fetch_with_error_handling (transfermarkt ad) lg ''Transfermarkt''),
      (''sofascore'', fetch_with_error_handling (sofascore ad) lg ''Sofascore'')]
     @ (case asa ad of
          None \<Rightarrow> []
        | Some f \<Rightarrow> [(''asa'', fetch_with_error_handling f lg ''ASA'')])"

text \<open>
  One round of the loop over \<^verbatim>\<open>futures\<close>:
  \<^verbatim>\<open>
  data, error = future.result()
  source_data[source] = data
  if error:
      results['errors'].append(f"{source}: {error}")
  else:
      results['sources'][source] = len(data)
  \<close>
\<close>

definition record_result ::
  "(string \<times> player list) list \<times> outcome \<Rightarrow> string \<times> player list \<times> string option
     \<Rightarrow> (string \<times> player list) list \<times> outcome" where
  "record_result acc fut =
     (case (acc, fut) of
        ((source_data, results), (source, data, err)) \<Rightarrow>
          (AList.update source data source_data,
           (case err of
              Some e \<Rightarrow>
                (if e \<noteq> [] then results\<lparr>res_errors := res_errors results @ [source @ '': '' @ e]\<rparr>
                 else results\<lparr>res_sources := AList.update source (length data) (res_sources results)\<rparr>)
            | None \<Rightarrow>
                results\<lparr>res_sources := AList.update source (length data) (res_sources results)\<rparr>)))"

text \<open>
  \<^verbatim>\<open>sync_league_data\<close>. The progress callback is an observer and is taken to
  return normally; closing the browser driver and the statements on the database are
  taken to succeed; \<^verbatim>\<open>_save_players_to_db\<close> catches the exception of each row and
  the table of players is not part of the state modelled here. What is left to raise
  inside the \<^verbatim>\<open>try\<close> block is the merge.
\<close>

definition sync_league_data :: "db \<Rightarrow> adapters \<Rightarrow> string \<Rightarrow> clock \<Rightarrow> db \<times> outcome" where
  "sync_league_data d ad lg clk =
     (let (d1, sync_id) = log_sync d lg ''all'' ''started'' 0 None (t_log_started clk);
          results0 = \<lparr>res_league = lg, res_started_at = t_started_at clk, res_sources = [],
                       res_total_players = 0, res_errors = [], res_completed_at = None,
                       res_duration = None\<rparr>;
          (source_data, results1) = foldl record_result ([], results0) (submit_all ad lg)
      in case merge_player_data source_data lg (t_merge clk) of
           Inr merged_list \<Rightarrow>
             (let results2 = results1\<lparr>res_total_players := length merged_list\<rparr>;
                  (d2, sid) = log_sync d1 lg ''all'' ''completed'' (res_total_players results2) None
                                (t_log_finished clk)
              in (d2, results2\<lparr>res_completed_at := Some (t_completed_at clk),
                      res_duration := Some (of_int (t_completed_at clk - res_started_at results2) / 1000000)\<rparr>))
         | Inl e \<Rightarrow>
             (let (d2, sid) = log_sync d1 lg ''all'' ''failed'' 0 (Some (str_error e)) (t_log_finished clk)
              in (d2, results1\<lparr>res_errors := res_errors results1 @ [''Sync failed: '' @ str_error e]\<rparr>)))"

section \<open>Notions used to state the properties, and sample data\<close>

text \<open>
  The running maximum of a sequence of numbers, and the numeric market values of the
  candidates of a cluster, in fold order.
\<close>

definition mv_step :: "rat option \<Rightarrow> rat \<Rightarrow> rat option" where
  "mv_step acc v = (case acc of None \<Rightarrow> Some v | Some a \<Rightarrow> Some (max a v))"

definition running_max :: "rat list \<Rightarrow> rat option" where
  "running_max vs = foldl mv_step None vs"

definition market_values :: "(string \<times> player) list \<Rightarrow> rat list" where
  "market_values cs =
     List.map_filter (\<lambda>(source, p). case p ''market_value'' of Some (VNum v) \<Rightarrow> Some v | _ \<Rightarrow> None) cs"

definition numeric_market_value :: "player \<Rightarrow> bool" where
  "numeric_market_value p = (case p ''market_value'' of Some (VStr s) \<Rightarrow> False | _ \<Rightarrow> True)"

text \<open>Sample candidates: a player ``John Smith'' of ``FC X'' with further attributes.\<close>

definition john :: "(string \<times> val) list \<Rightarrow> player" where
  "john kvs = map_of ([(''name'', VStr ''John Smith''), (''club'', VStr ''FC X'')] @ kvs)"


text \<open>
  The record that \<^verbatim>\<open>merged_players[key]\<close> denotes after the test
  \<^verbatim>\<open>if key not in merged_players\<close>: the stored one, or a fresh one.
\<close>

definition current_record :: "(string \<times> merged) list \<Rightarrow> string \<Rightarrow> int \<Rightarrow> string \<Rightarrow> merged" where
  "current_record mp lg now key = (case map_of mp key of None \<Rightarrow> new_cluster lg now | Some m \<Rightarrow> m)"

text \<open>
  The end-to-end scenario of the specification: three adapters report the same player
  with market values 100, 200 and 150 and ages 24, null and 24.
\<close>

definition three_sources :: "(string \<times> player list) list" where
  "three_sources =
     [(''fbref'', [john [(''market_value'', VNum 100), (''age'', VNum 24)]]),
      (''transfermarkt'', [john [(''market_value'', VNum 200), (''age'', VNone)]]),
      (''sofascore'', [john [(''market_value'', VNum 150), (''age'', VNum 24)]])]"

text \<open>
  The fields of the first loop other than market value and rating, and the non-null
  values that the candidates of a cluster give to a field, in fold order.
\<close>

definition plain_fields :: "string list" where
  "plain_fields = filter (\<lambda>f. f \<noteq> ''market_value'' \<and> f \<noteq> ''rating'') field_names"

definition non_null_values :: "string \<Rightarrow> (string \<times> player) list \<Rightarrow> val list" where
  "non_null_values f cs =
     List.map_filter
       (\<lambda>(source, p). case p f of None \<Rightarrow> None | Some v \<Rightarrow> if v \<noteq> VNone then Some v else None) cs"

definition first_value :: "val list \<Rightarrow> val option" where
  "first_value vs = (case vs of [] \<Rightarrow> None | v # rest \<Rightarrow> Some v)"

definition last_value :: "val list \<Rightarrow> val option" where
  "last_value vs = (if vs = [] then None else Some (last vs))"

text \<open>Two adapters report the same player with different expected-goals figures.\<close>

definition xg_sources :: "(string \<times> player list) list" where
  "xg_sources =
     [(''fbref'', [john [(''xg'', VNum 1), (''age'', VNum 24)]]),
      (''asa'', [john [(''xg'', VNum 2), (''age'', VNum 25)]])]"

text \<open>The database before anything is stored.\<close>

definition empty_db :: db where
  "empty_db = \<lparr>cache = [], sync_history = []\<rparr>"

text \<open>The rows of a key after a set, and what later operations on other keys leave of them.\<close>

definition only_row :: "db \<Rightarrow> string \<Rightarrow> cache_row \<Rightarrow> int \<Rightarrow> bool" where
  "only_row d key row now \<longleftrightarrow>
     (\<forall>r \<in> set (cache d). c_key r = key \<longrightarrow> r = row) \<and>
     (now < c_expiry row \<longrightarrow> row \<in> set (cache d))"

text \<open>
  What the loop over \<^verbatim>\<open>futures\<close> is expected to collect: the records of every
  adapter under its key, and one entry of the error list for every adapter that raised.
\<close>

definition source_data_of :: "adapters \<Rightarrow> string \<Rightarrow> (string \<times> player list) list" where
  "source_data_of ad lg = map (\<lambda>(source, data, err). (source, data)) (submit_all ad lg)"

definition error_entries :: "(string \<times> player list \<times> string option) list \<Rightarrow> string list" where
  "error_entries futs =
     concat (map (\<lambda>(source, data, err).
        case err of Some e \<Rightarrow> (if e \<noteq> [] then [source @ '': '' @ e] else []) | None \<Rightarrow> []) futs)"

definition fetch_errors :: "adapters \<Rightarrow> string \<Rightarrow> string list" where
  "fetch_errors ad lg = error_entries (submit_all ad lg)"


text \<open>
  Sample runs: one adapter times out and the others succeed; the same with a record
  whose name is empty; all adapters succeed and one record has a null club.
\<close>

definition sample_clock :: clock where
  "sample_clock = \<lparr>t_log_started = 10, t_started_at = 11, t_merge = 12, t_log_finished = 13,
     t_completed_at = 14\<rparr>"

definition one_adapter_down :: adapters where
  "one_adapter_down = \<lparr>fbref = (\<lambda>lg. Inl ''timeout''),
     transfermarkt = (\<lambda>lg. Inr [john [(''market_value'', VNum 200)]]),
     sofascore = (\<lambda>lg. Inr [john [(''rating'', VNum 7)]]),
     asa = None\<rparr>"

definition blank_name_adapters :: adapters where
  "blank_name_adapters = \<lparr>fbref = (\<lambda>lg. Inl ''timeout''),
     transfermarkt = (\<lambda>lg. Inr [map_of [(''name'', VStr ''''), (''club'', VStr ''FC X'')]]),
     sofascore = (\<lambda>lg. Inr [john [(''rating'', VNum 7)]]),
     asa = None\<rparr>"





definition rating_invariant :: "merged \<Rightarrow> bool" where
  "rating_invariant m \<longleftrightarrow>
     (attrs m ''rating'' = None \<longrightarrow>
        (\<forall>(src, s) \<in> set (sources m). s ''rating'' = None \<or> s ''rating'' = Some VNone))"

section \<open>Field merger: how one fold step acts on each attribute\<close>

lemma merge_fields_other:
  "merge_fields nd fs m = Inr m' \<Longrightarrow> g \<notin> set fs \<Longrightarrow> m' g = m g"
  by (induction fs arbitrary: m) (auto simp: merge_field_def split: sum.splits)

lemma merge_fields_at:
  "merge_fields nd fs m = Inr m' \<Longrightarrow> distinct fs \<Longrightarrow> g \<in> set fs \<Longrightarrow>
   merge_field_val nd g (m g) = Inr (m' g)"
proof (induction fs arbitrary: m)
  case Nil
  then show ?case by simp
next
  case (Cons f fs)
  from Cons.prems(1) obtain m1 where
    s1: "merge_field nd m f = Inr m1" and s2: "merge_fields nd fs m1 = Inr m'"
    by (auto split: sum.splits)
  from s1 obtain r where r: "merge_field_val nd f (m f) = Inr r" and m1: "m1 = m(f := r)"
    by (auto simp: merge_field_def split: sum.splits)
  show ?case
  proof (cases "g = f")
    case True
    with Cons.prems(2) have "g \<notin> set fs" by simp
    with s2 have "m' g = m1 g" by (rule merge_fields_other)
    with True r m1 show ?thesis by simp
  next
    case False
    with Cons.prems have "g \<in> set fs" "distinct fs" by auto
    with Cons.IH[OF s2] have "merge_field_val nd g (m1 g) = Inr (m' g)" by simp
    with False m1 show ?thesis by simp
  qed
qed

lemma foldl_merge_id_at:
  "foldl (merge_id nd) a fs g =
     (if g \<in> set fs then (case nd g of Some v \<Rightarrow> if truthy v then Some v else a g | None \<Rightarrow> a g)
      else a g)"
  by (induction fs arbitrary: a) (auto simp: merge_id_def split: option.splits)

lemma foldl_merge_stat_at:
  "foldl (merge_stat nd) a fs g =
     (if g \<in> set fs then (case nd g of Some v \<Rightarrow> if v \<noteq> VNone then Some v else a g | None \<Rightarrow> a g)
      else a g)"
  by (induction fs arbitrary: a) (auto simp: merge_stat_def split: option.splits)

lemma distinct_field_names: "distinct field_names"
  by (simp add: field_names_def)

lemma fields_not_ids: "g \<in> set field_names \<Longrightarrow> g \<notin> set id_fields \<and> g \<notin> set stats"
  by (auto simp: field_names_def id_fields_def stats_def)

lemma stats_not_fields: "g \<in> set stats \<Longrightarrow> g \<notin> set id_fields \<and> g \<notin> set field_names"
  by (auto simp: field_names_def id_fields_def stats_def)

lemma merge_player_info_field:
  assumes "merge_player_info m nd src = Inr m'" and "g \<in> set field_names"
  shows "merge_field_val nd g (attrs m g) = Inr (attrs m' g)"
proof -
  from assms(1) obtain a1 where
    a1: "merge_fields nd field_names (attrs m) = Inr a1" and
    m': "attrs m' = foldl (merge_stat nd) (foldl (merge_id nd) a1 id_fields) stats"
    by (auto simp: merge_player_info_def Let_def split: sum.splits)
  from fields_not_ids[OF assms(2)] m' have "attrs m' g = a1 g"
    by (simp add: foldl_merge_id_at foldl_merge_stat_at)
  with merge_fields_at[OF a1 distinct_field_names assms(2)] show ?thesis by simp
qed

lemma merge_player_info_stat:
  assumes "merge_player_info m nd src = Inr m'" and "g \<in> set stats"
  shows "attrs m' g = (case nd g of Some v \<Rightarrow> if v \<noteq> VNone then Some v else attrs m g | None \<Rightarrow> attrs m g)"
proof -
  from assms(1) obtain a1 where
    a1: "merge_fields nd field_names (attrs m) = Inr a1" and
    m': "attrs m' = foldl (merge_stat nd) (foldl (merge_id nd) a1 id_fields) stats"
    by (auto simp: merge_player_info_def Let_def split: sum.splits)
  from stats_not_fields[OF assms(2)] have "g \<notin> set id_fields" "g \<notin> set field_names" by auto
  with a1 have "a1 g = attrs m g" by (simp add: merge_fields_other)
  moreover from \<open>g \<notin> set id_fields\<close> have "foldl (merge_id nd) a1 id_fields g = a1 g"
    by (simp add: foldl_merge_id_at)
  ultimately show ?thesis using m' assms(2)
    by (simp add: foldl_merge_stat_at split: option.splits)
qed

lemma merge_player_info_sources:
  "merge_player_info m nd src = Inr m' \<Longrightarrow> sources m' = AList.update src nd (sources m)"
  by (auto simp: merge_player_info_def Let_def split: sum.splits)


subsection \<open>Rating\<close>




subsection \<open>Market value\<close>

lemma market_value_step:
  assumes "merge_player_info m p src = Inr m'"
    and "attrs m ''market_value'' = map_option VNum acc"
    and "numeric_market_value p"
  shows "attrs m' ''market_value'' = map_option VNum (foldl mv_step acc (market_values [(src, p)]))"
proof -
  have "''market_value'' \<in> set field_names" by (simp add: field_names_def)
  from merge_player_info_field[OF assms(1) this] assms(2,3) show ?thesis
    by (cases acc)
       (auto simp: merge_field_val_def market_values_def List.map_filter_def mv_step_def
          numeric_market_value_def split: option.splits val.splits if_splits)
qed

lemma market_values_Cons:
  "market_values (c # cs) = market_values [c] @ market_values cs"
  by (simp add: market_values_def List.map_filter_def)

lemma market_values_append:
  "market_values (cs1 @ cs2) = market_values cs1 @ market_values cs2"
  by (simp add: market_values_def List.map_filter_def)

lemma fold_cluster_market_value:
  "fold_cluster m cs = Inr m' \<Longrightarrow> attrs m ''market_value'' = map_option VNum acc \<Longrightarrow>
   \<forall>(src, p) \<in> set cs. numeric_market_value p \<Longrightarrow>
   attrs m' ''market_value'' = map_option VNum (foldl mv_step acc (market_values cs))"
proof (induction cs arbitrary: m acc)
  case Nil
  then show ?case by (simp add: market_values_def List.map_filter_def)
next
  case (Cons c cs)
  obtain src p where c: "c = (src, p)" by (cases c)
  from Cons.prems(1) c obtain m1 where
    s1: "merge_player_info m p src = Inr m1" and s2: "fold_cluster m1 cs = Inr m'"
    by (auto split: sum.splits)
  from Cons.prems(3) c have np: "numeric_market_value p" and
    rest: "\<forall>(src, p) \<in> set cs. numeric_market_value p" by auto
  from market_value_step[OF s1 Cons.prems(2) np]
  have "attrs m1 ''market_value'' = map_option VNum (foldl mv_step acc (market_values [(src, p)]))" .
  from Cons.IH[OF s2 this rest] show ?case
    by (subst market_values_Cons) (simp add: c)
qed

lemma fold_cluster_append:
  "fold_cluster m (cs1 @ cs2) = Inr m' \<longleftrightarrow>
   (\<exists>m1. fold_cluster m cs1 = Inr m1 \<and> fold_cluster m1 cs2 = Inr m')"
  by (induction cs1 arbitrary: m) (auto split: sum.splits)

lemma mv_step_mono:
  "foldl mv_step (Some a) vs = Some b \<Longrightarrow> a \<le> b"
proof (induction vs arbitrary: a)
  case Nil then show ?case by simp
next
  case (Cons v vs)
  have "mv_step (Some a) v = Some (max a v)" by (simp add: mv_step_def)
  with Cons.prems have "foldl mv_step (Some (max a v)) vs = Some b" by simp
  from Cons.IH[OF this] show ?case by simp
qed

lemma mv_step_Some:
  "\<exists>b. foldl mv_step (Some a) vs = Some b"
proof (induction vs arbitrary: a)
  case Nil then show ?case by simp
next
  case (Cons v vs)
  have "mv_step (Some a) v = Some (max a v)" by (simp add: mv_step_def)
  with Cons.IH[of "max a v"] show ?case by simp
qed

lemma mv_step_upper:
  "v \<in> set vs \<Longrightarrow> \<exists>b. foldl mv_step acc vs = Some b \<and> v \<le> b"
proof (induction vs arbitrary: acc)
  case Nil then show ?case by simp
next
  case (Cons w vs)
  obtain a where a: "mv_step acc w = Some a" and wa: "w \<le> a"
    by (cases acc) (auto simp: mv_step_def)
  show ?case
  proof (cases "v \<in> set vs")
    case True
    from Cons.IH[OF True, of "mv_step acc w"] show ?thesis by simp
  next
    case False
    with Cons.prems have "v = w" by simp
    from mv_step_Some[of a vs] obtain b where b: "foldl mv_step (Some a) vs = Some b" ..
    from mv_step_mono[OF b] wa have "w \<le> b" by simp
    with a b \<open>v = w\<close> show ?thesis by simp
  qed
qed

subsection \<open>Clusters: the record of a key is the fold of the key's candidates\<close>

lemma merge_one_Inr:
  assumes "merge_one lg now src mp p = Inr mp'"
  obtains key m' where "player_key p = Inr key"
    and "merge_player_info (current_record mp lg now key) p src = Inr m'"
    and "mp' = AList.update key m' mp"
  using assms
  by (auto simp: merge_one_def current_record_def Let_def split: sum.splits)

lemma cluster_of_Cons:
  "cluster_of k ((src, p) # cs) =
     (if player_key p = Inr k then (src, p) # cluster_of k cs else cluster_of k cs)"
  by (simp add: cluster_of_def)

lemma cluster_of_append: "cluster_of k (cs1 @ cs2) = cluster_of k cs1 @ cluster_of k cs2"
  by (simp add: cluster_of_def)

lemma merge_players_cluster:
  "merge_players lg now src mp ps = Inr mp' \<Longrightarrow>
   fold_cluster (current_record mp lg now k) (cluster_of k (map (Pair src) ps))
     = Inr (current_record mp' lg now k)"
proof (induction ps arbitrary: mp)
  case Nil
  then show ?case by (simp add: cluster_of_def)
next
  case (Cons p ps)
  from Cons.prems obtain mp1 where
    s1: "merge_one lg now src mp p = Inr mp1" and s2: "merge_players lg now src mp1 ps = Inr mp'"
    by (auto split: sum.splits)
  from s1 obtain key m1 where key: "player_key p = Inr key"
    and m1: "merge_player_info (current_record mp lg now key) p src = Inr m1"
    and mp1: "mp1 = AList.update key m1 mp"
    by (rule merge_one_Inr)
  note IH = Cons.IH[OF s2]
  show ?case
  proof (cases "key = k")
    case True
    with mp1 have "current_record mp1 lg now k = m1"
      by (simp add: current_record_def update_conv')
    with IH True key m1 show ?thesis
      by (simp add: cluster_of_Cons)
  next
    case False
    with mp1 have "current_record mp1 lg now k = current_record mp lg now k"
      by (simp add: current_record_def update_conv')
    with IH False key show ?thesis
      by (simp add: cluster_of_Cons)
  qed
qed

lemma candidates_Cons:
  "candidates ((src, ps) # rest) = map (Pair src) ps @ candidates rest"
  by (simp add: candidates_def)

lemma merge_sources_cluster:
  "merge_sources lg now mp sd = Inr mp' \<Longrightarrow>
   fold_cluster (current_record mp lg now k) (cluster_of k (candidates sd))
     = Inr (current_record mp' lg now k)"
proof (induction sd arbitrary: mp)
  case Nil
  then show ?case by (simp add: candidates_def cluster_of_def)
next
  case (Cons sp sd)
  obtain src ps where sp: "sp = (src, ps)" by (cases sp)
  from Cons.prems sp obtain mp1 where
    s1: "merge_players lg now src mp ps = Inr mp1" and s2: "merge_sources lg now mp1 sd = Inr mp'"
    by (auto split: sum.splits)
  from merge_players_cluster[OF s1] Cons.IH[OF s2] show ?case
    unfolding sp candidates_Cons cluster_of_append fold_cluster_append by blast
qed

lemma merge_one_distinct:
  "merge_one lg now src mp p = Inr mp' \<Longrightarrow> distinct (map fst mp) \<Longrightarrow> distinct (map fst mp')"
  by (erule merge_one_Inr) (simp add: distinct_update)

lemma merge_players_distinct:
  "merge_players lg now src mp ps = Inr mp' \<Longrightarrow> distinct (map fst mp) \<Longrightarrow> distinct (map fst mp')"
  by (induction ps arbitrary: mp) (auto split: sum.splits dest: merge_one_distinct)

lemma merge_sources_distinct:
  "merge_sources lg now mp sd = Inr mp' \<Longrightarrow> distinct (map fst mp) \<Longrightarrow> distinct (map fst mp')"
proof (induction sd arbitrary: mp)
  case Nil
  then show ?case by simp
next
  case (Cons sp sd)
  obtain src ps where sp: "sp = (src, ps)" by (cases sp)
  from Cons.prems(1) sp obtain mp1 where
    s1: "merge_players lg now src mp ps = Inr mp1" and s2: "merge_sources lg now mp1 sd = Inr mp'"
    by (auto split: sum.splits)
  from merge_players_distinct[OF s1 Cons.prems(2)] Cons.IH[OF s2] show ?case by blast
qed

lemma merged_players_cluster:
  assumes "merged_players sd lg now = Inr mp" and "(k, m) \<in> set mp"
  shows "fold_cluster (new_cluster lg now) (cluster_of k (candidates sd)) = Inr m"
proof -
  from assms(1) have ms: "merge_sources lg now [] sd = Inr mp" by (simp add: merged_players_def)
  from merge_sources_distinct[OF ms] have "distinct (map fst mp)" by simp
  with assms(2) have "map_of mp k = Some m" by simp
  then have "current_record mp lg now k = m" by (simp add: current_record_def)
  with merge_sources_cluster[OF ms, of k] show ?thesis by (simp add: current_record_def)
qed

lemma set_market_values:
  "v \<in> set (market_values cs) \<longleftrightarrow> (\<exists>(src, p) \<in> set cs. p ''market_value'' = Some (VNum v))"
  by (induction cs)
     (auto simp: market_values_def List.map_filter_def split: option.splits val.splits)

lemma backfill_rating_other:
  "backfill_rating m = Inr m' \<Longrightarrow> f \<noteq> ''rating'' \<Longrightarrow> attrs m' f = attrs m f"
  by (auto simp: backfill_rating_def Let_def split: if_splits sum.splits)

lemma generate_player_key_john:
  "generate_player_key (VStr ''John Smith'') (VStr ''FC X'') = Inr ''john_smith_fc x''"
  by code_simp

lemma player_key_john: "player_key (john kvs) = Inr ''john_smith_fc x''"
  by (simp add: player_key_def get_or_empty_def john_def generate_player_key_john
        del: generate_player_key.simps)


text \<open>
  C4: for every cluster produced by \<^verbatim>\<open>_merge_player_data\<close> from candidates whose
  market values are numbers or null, and for every split of the cluster's fold into the
  candidates folded so far \<open>cs1\<close> and the rest \<open>cs2\<close>: the merged market value after
  \<open>cs1\<close> is the running maximum of the non-null market values of \<open>cs1\<close>, the final
  one is the running maximum over the whole cluster, it does not decrease from one to
  the other, it is at least every candidate's market value, and the rating back-fill
  leaves it unchanged.
\<close>

theorem market_value_running_max:
  assumes "merged_players source_data lg now = Inr mp"
    and "(key, m) \<in> set mp"
    and "\<forall>(source, p) \<in> set (candidates source_data). numeric_market_value p"
    and "cluster_of key (candidates source_data) = cs1 @ cs2"
  shows "\<exists>m1. fold_cluster (new_cluster lg now) cs1 = Inr m1 \<and> fold_cluster m1 cs2 = Inr m
      \<and> attrs m1 ''market_value'' = map_option VNum (running_max (market_values cs1))
      \<and> attrs m ''market_value'' = map_option VNum (running_max (market_values (cs1 @ cs2)))
      \<and> (\<forall>a. attrs m1 ''market_value'' = Some (VNum a)
             \<longrightarrow> (\<exists>b. attrs m ''market_value'' = Some (VNum b) \<and> a \<le> b))
      \<and> (\<forall>(source, p) \<in> set (cs1 @ cs2). \<forall>v. p ''market_value'' = Some (VNum v)
             \<longrightarrow> (\<exists>b. attrs m ''market_value'' = Some (VNum b) \<and> v \<le> b))
      \<and> (\<forall>m'. backfill_rating m = Inr m' \<longrightarrow> attrs m' ''market_value'' = attrs m ''market_value'')"
proof -
  let ?init = "new_cluster lg now"
  from merged_players_cluster[OF assms(1,2)] assms(4)
  have whole: "fold_cluster ?init (cs1 @ cs2) = Inr m" by simp
  then obtain m1 where f1: "fold_cluster ?init cs1 = Inr m1" and f2: "fold_cluster m1 cs2 = Inr m"
    unfolding fold_cluster_append by blast
  have num: "\<forall>(source, p) \<in> set (cs1 @ cs2). numeric_market_value p"
  proof -
    have "set (cs1 @ cs2) \<subseteq> set (candidates source_data)"
      unfolding assms(4)[symmetric] cluster_of_def by auto
    with assms(3) show ?thesis by blast
  qed
  then have num1: "\<forall>(source, p) \<in> set cs1. numeric_market_value p" by auto
  have init: "attrs ?init ''market_value'' = map_option VNum None" by (simp add: new_cluster_def)
  have r1: "attrs m1 ''market_value'' = map_option VNum (running_max (market_values cs1))"
    using fold_cluster_market_value[OF f1 init num1] by (simp add: running_max_def)
  have r: "attrs m ''market_value'' = map_option VNum (running_max (market_values (cs1 @ cs2)))"
    using fold_cluster_market_value[OF whole init num] by (simp add: running_max_def)
  have mono: "\<exists>b. attrs m ''market_value'' = Some (VNum b) \<and> a \<le> b"
    if "attrs m1 ''market_value'' = Some (VNum a)" for a
  proof -
    from that r1 have a: "running_max (market_values cs1) = Some a" by (cases "running_max (market_values cs1)") auto
    have "running_max (market_values (cs1 @ cs2)) = foldl mv_step (Some a) (market_values cs2)"
      using a by (simp add: running_max_def market_values_append)
    moreover from mv_step_Some[of a "market_values cs2"] obtain b where
      b: "foldl mv_step (Some a) (market_values cs2) = Some b" ..
    moreover from mv_step_mono[OF b] have "a \<le> b" .
    ultimately show ?thesis using r by simp
  qed
  have upper: "\<exists>b. attrs m ''market_value'' = Some (VNum b) \<and> v \<le> b"
    if "(source, p) \<in> set (cs1 @ cs2)" and "p ''market_value'' = Some (VNum v)" for source p v
  proof -
    from that have "v \<in> set (market_values (cs1 @ cs2))"
      unfolding set_market_values by blast
    from mv_step_upper[OF this, of None] r show ?thesis by (auto simp: running_max_def)
  qed
  have mono': "\<forall>a. attrs m1 ''market_value'' = Some (VNum a)
             \<longrightarrow> (\<exists>b. attrs m ''market_value'' = Some (VNum b) \<and> a \<le> b)"
    using mono by blast
  have upper': "\<forall>(source, p) \<in> set (cs1 @ cs2). \<forall>v. p ''market_value'' = Some (VNum v)
             \<longrightarrow> (\<exists>b. attrs m ''market_value'' = Some (VNum b) \<and> v \<le> b)"
    using upper by blast
  have bf: "\<forall>m'. backfill_rating m = Inr m' \<longrightarrow> attrs m' ''market_value'' = attrs m ''market_value''"
    using backfill_rating_other[of m _ "''market_value''"] by simp
  from f1 f2 r1 r mono' upper' bf show ?thesis
    by - (rule exI[of _ m1], intro conjI, assumption+)
qed


theorem market_value_running_max_witness:
  "\<not> isl (merged_players three_sources ''MLS'' 0)
   \<and> (''john_smith_fc x'', snd (hd (projr (merged_players three_sources ''MLS'' 0))))
        \<in> set (projr (merged_players three_sources ''MLS'' 0))
   \<and> list_all (\<lambda>(source, p). numeric_market_value p) (candidates three_sources)
   \<and> attrs (snd (hd (projr (merged_players three_sources ''MLS'' 0)))) ''market_value''
        = Some (VNum 200)"
proof -
  let ?r = "merged_players three_sources ''MLS'' 0"
  let ?mp = "projr ?r"
  let ?c1 = "(''fbref'', john [(''market_value'', VNum 100), (''age'', VNum 24)])"
  let ?c2 = "(''transfermarkt'', john [(''market_value'', VNum 200), (''age'', VNone)])"
  let ?c3 = "(''sofascore'', john [(''market_value'', VNum 150), (''age'', VNum 24)])"
  have ok: "\<not> isl ?r" by code_simp
  then have e: "?r = Inr ?mp" by simp
  have keys: "map fst ?mp = [''john_smith_fc x'']" by code_simp
  then have mem: "(''john_smith_fc x'', snd (hd ?mp)) \<in> set ?mp"
    by (cases ?mp) auto
  have num: "\<forall>(source, p) \<in> set (candidates three_sources). numeric_market_value p"
    by (simp add: candidates_def three_sources_def numeric_market_value_def john_def)
  have cl: "cluster_of ''john_smith_fc x'' (candidates three_sources) = [?c1] @ [?c2, ?c3]"
    by (simp add: candidates_def three_sources_def cluster_of_def player_key_john)
  have mx: "running_max (market_values ([?c1] @ [?c2, ?c3])) = Some 200"
    by (simp add: running_max_def market_values_def List.map_filter_def john_def mv_step_def)
  from market_value_running_max[OF e mem num cl] mx
  have "attrs (snd (hd ?mp)) ''market_value'' = Some (VNum 200)" by auto
  moreover from num have "list_all (\<lambda>(source, p). numeric_market_value p) (candidates three_sources)"
    by (simp add: list_all_iff)
  ultimately show ?thesis using ok mem by blast
qed

subsection \<open>Plain fields and statistics\<close>

lemma non_null_values_Cons:
  "non_null_values f ((src, p) # cs) =
     (case p f of None \<Rightarrow> non_null_values f cs
      | Some v \<Rightarrow> if v \<noteq> VNone then v # non_null_values f cs else non_null_values f cs)"
  by (simp add: non_null_values_def List.map_filter_def split: option.splits)

lemma plain_field_step:
  assumes "merge_player_info m p src = Inr m'" and "f \<in> set plain_fields"
  shows "attrs m' f =
     (case attrs m f of
        None \<Rightarrow> first_value (non_null_values f [(src, p)])
      | Some v \<Rightarrow> if v = VNone then (case first_value (non_null_values f [(src, p)]) of None \<Rightarrow> Some VNone | Some w \<Rightarrow> Some w)
                  else Some v)"
proof -
  from assms(2) have f: "f \<in> set field_names" "f \<noteq> ''market_value''" "f \<noteq> ''rating''"
    by (auto simp: plain_fields_def)
  from merge_player_info_field[OF assms(1) f(1)] f(2,3) show ?thesis
    by (auto simp: merge_field_val_def non_null_values_Cons non_null_values_def first_value_def
          List.map_filter_def split: option.splits val.splits)
qed

lemma fold_cluster_plain_field:
  "fold_cluster m cs = Inr m' \<Longrightarrow> f \<in> set plain_fields \<Longrightarrow> attrs m f \<noteq> Some VNone \<Longrightarrow>
   attrs m' f = (case attrs m f of None \<Rightarrow> first_value (non_null_values f cs) | Some v \<Rightarrow> Some v)"
proof (induction cs arbitrary: m)
  case Nil
  then show ?case by (simp add: non_null_values_def first_value_def List.map_filter_def split: option.splits)
next
  case (Cons c cs)
  obtain src p where c: "c = (src, p)" by (cases c)
  from Cons.prems(1) c obtain m1 where
    s1: "merge_player_info m p src = Inr m1" and s2: "fold_cluster m1 cs = Inr m'"
    by (auto split: sum.splits)
  note st = plain_field_step[OF s1 Cons.prems(2)]
  have nn: "attrs m1 f \<noteq> Some VNone"
    using st Cons.prems(3)
    by (auto simp: non_null_values_Cons first_value_def non_null_values_def List.map_filter_def
          split: option.splits if_splits)
  from Cons.IH[OF s2 Cons.prems(2) nn] st Cons.prems(3) show ?case
    unfolding c
    by (auto simp: non_null_values_Cons first_value_def non_null_values_def List.map_filter_def
          split: option.splits if_splits)
qed

lemma stat_step:
  assumes "merge_player_info m p src = Inr m'" and "f \<in> set stats"
  shows "attrs m' f = (case last_value (non_null_values f [(src, p)]) of None \<Rightarrow> attrs m f | Some v \<Rightarrow> Some v)"
  using merge_player_info_stat[OF assms]
  by (auto simp: non_null_values_def last_value_def List.map_filter_def split: option.splits)

lemma fold_cluster_stat:
  "fold_cluster m cs = Inr m' \<Longrightarrow> f \<in> set stats \<Longrightarrow>
   attrs m' f = (case last_value (non_null_values f cs) of None \<Rightarrow> attrs m f | Some v \<Rightarrow> Some v)"
proof (induction cs arbitrary: m)
  case Nil
  then show ?case by (simp add: non_null_values_def last_value_def List.map_filter_def)
next
  case (Cons c cs)
  obtain src p where c: "c = (src, p)" by (cases c)
  from Cons.prems(1) c obtain m1 where
    s1: "merge_player_info m p src = Inr m1" and s2: "fold_cluster m1 cs = Inr m'"
    by (auto split: sum.splits)
  from Cons.IH[OF s2 Cons.prems(2)] stat_step[OF s1 Cons.prems(2)] show ?case
    unfolding c
    by (auto simp: non_null_values_Cons last_value_def non_null_values_def List.map_filter_def
          split: option.splits if_splits)
qed


text \<open>
  C6, as the code has it: in every cluster built by \<^verbatim>\<open>_merge_player_data\<close>, a field
  of the first loop other than market value and rating (name, age, position, club,
  nationality, goals, assists, matches, minutes\_played, yellow\_cards, red\_cards) holds
  the first non-null value folded; a statistic of the third loop (xg, xa, xg\_per\_90,
  xa\_per\_90, key\_passes, dribbles) holds the last non-null value folded: a later
  non-null value overwrites it. The rating back-fill changes neither.
\<close>

theorem first_wins_fields_last_wins_stats:
  assumes "merged_players source_data lg now = Inr mp" and "(key, m) \<in> set mp"
  shows "(f \<in> set plain_fields \<longrightarrow>
            attrs m f = first_value (non_null_values f (cluster_of key (candidates source_data))))
       \<and> (f \<in> set stats \<longrightarrow>
            attrs m f = last_value (non_null_values f (cluster_of key (candidates source_data))))
       \<and> (f \<in> set plain_fields \<union> set stats \<longrightarrow>
            (\<forall>m'. backfill_rating m = Inr m' \<longrightarrow> attrs m' f = attrs m f))"
proof -
  let ?cs = "cluster_of key (candidates source_data)"
  from merged_players_cluster[OF assms] have fc: "fold_cluster (new_cluster lg now) ?cs = Inr m" .
  have init: "attrs (new_cluster lg now) f = None" by (simp add: new_cluster_def)
  have a: "attrs m f = first_value (non_null_values f ?cs)" if "f \<in> set plain_fields"
    using fold_cluster_plain_field[OF fc that] init by simp
  have b: "attrs m f = last_value (non_null_values f ?cs)" if "f \<in> set stats"
    using fold_cluster_stat[OF fc that] init by (simp split: option.splits)
  have "f \<noteq> ''rating''" if "f \<in> set plain_fields \<union> set stats"
    using that by (auto simp: plain_fields_def stats_def)
  then have c: "\<forall>m'. backfill_rating m = Inr m' \<longrightarrow> attrs m' f = attrs m f"
    if "f \<in> set plain_fields \<union> set stats"
    using that backfill_rating_other by blast
  from a b c show ?thesis by blast
qed

theorem first_wins_fields_last_wins_stats_witness:
  "\<not> isl (merged_players xg_sources ''MLS'' 0)
   \<and> (''john_smith_fc x'', snd (hd (projr (merged_players xg_sources ''MLS'' 0))))
        \<in> set (projr (merged_players xg_sources ''MLS'' 0))
   \<and> ''age'' \<in> set plain_fields \<and> ''xg'' \<in> set stats
   \<and> attrs (snd (hd (projr (merged_players xg_sources ''MLS'' 0)))) ''age'' = Some (VNum 24)
   \<and> attrs (snd (hd (projr (merged_players xg_sources ''MLS'' 0)))) ''xg'' = Some (VNum 2)"
proof -
  let ?r = "merged_players xg_sources ''MLS'' 0"
  let ?mp = "projr ?r"
  have ok: "\<not> isl ?r" by code_simp
  then have e: "?r = Inr ?mp" by simp
  have keys: "map fst ?mp = [''john_smith_fc x'']" by code_simp
  then have mem: "(''john_smith_fc x'', snd (hd ?mp)) \<in> set ?mp"
    by (cases ?mp) auto
  have pf: "''age'' \<in> set plain_fields" by (simp add: plain_fields_def field_names_def)
  have st: "''xg'' \<in> set stats" by (simp add: stats_def)
  have cl: "cluster_of ''john_smith_fc x'' (candidates xg_sources) =
      [(''fbref'', john [(''xg'', VNum 1), (''age'', VNum 24)]),
       (''asa'', john [(''xg'', VNum 2), (''age'', VNum 25)])]"
    by (simp add: candidates_def xg_sources_def cluster_of_def player_key_john)
  have v1: "first_value (non_null_values ''age'' (cluster_of ''john_smith_fc x'' (candidates xg_sources)))
      = Some (VNum 24)"
    unfolding cl by (simp add: non_null_values_def List.map_filter_def first_value_def john_def)
  have v2: "last_value (non_null_values ''xg'' (cluster_of ''john_smith_fc x'' (candidates xg_sources)))
      = Some (VNum 2)"
    unfolding cl by (simp add: non_null_values_def List.map_filter_def last_value_def john_def)
  from first_wins_fields_last_wins_stats[OF e mem, of "''age''"] pf v1
  have "attrs (snd (hd ?mp)) ''age'' = Some (VNum 24)" by simp
  moreover from first_wins_fields_last_wins_stats[OF e mem, of "''xg''"] st v2
  have "attrs (snd (hd ?mp)) ''xg'' = Some (VNum 2)" by simp
  ultimately show ?thesis using ok mem pf st by blast
qed


text \<open>
  The claim as written fails for the statistics: with expected goals 1 from the first
  adapter and 2 from the second, the merged record holds 2, not the first value 1.
\<close>

theorem stats_first_wins_counterexample:
  "(case merge_player_data xg_sources ''MLS'' 0 of
      Inl e \<Rightarrow> []
    | Inr fl \<Rightarrow> map (\<lambda>m. attrs m ''xg'') fl) = [Some (VNum 2)]
   \<and> first_value (non_null_values ''xg'' (candidates xg_sources)) = Some (VNum 1)"
proof -
  have "(case merge_player_data xg_sources ''MLS'' 0 of
      Inl e \<Rightarrow> []
    | Inr fl \<Rightarrow> map (\<lambda>m. attrs m ''xg'') fl) = [Some (VNum 2)]"
    by code_simp
  moreover have "first_value (non_null_values ''xg'' (candidates xg_sources)) = Some (VNum 1)"
    by (simp add: candidates_def xg_sources_def non_null_values_def List.map_filter_def first_value_def john_def)
  ultimately show ?thesis by simp
qed

section \<open>Match key on degenerate input\<close>

text \<open>
  C5: the claim says that the key derivation returns a key for every pair of strings,
  an empty or whitespace-only name included. On such a name \<^verbatim>\<open>split()\<close> gives
  the empty list and \<^verbatim>\<open>n[0]\<close> raises \<^verbatim>\<open>IndexError\<close>, although the caller
  passes the empty string for a missing name. An empty club is handled, and so are
  names of one token and of several tokens.
\<close>

theorem generate_player_key_blank_name:
  "generate_player_key (VStr '''') (VStr ''FC X'') = Inl IndexError
   \<and> generate_player_key (VStr ''   '') (VStr ''FC X'') = Inl IndexError
   \<and> generate_player_key (VStr ''Juan Perez'') (VStr '''') = Inr ''juan_perez_''
   \<and> generate_player_key (VStr ''  Juan   Carlos Perez '') (VStr ''LA GALAXY '') = Inr ''juan_perez_la galaxy''
   \<and> generate_player_key (VStr ''Pele'') (VStr ''Santos'') = Inr ''pele_santos''"
  by code_simp

section \<open>parse\_number\<close>









section \<open>Response cache\<close>

text \<open>The primary key stays unique under the operations of the cache.\<close>

lemma cache_set_distinct:
  "cache_set d key v ttl now = Inr d' \<Longrightarrow> distinct (map c_key (cache d)) \<Longrightarrow>
   distinct (map c_key (cache d'))"
  by (auto simp: cache_set_def Let_def distinct_map_filter split: if_splits)

lemma clear_expired_cache_distinct:
  "distinct (map c_key (cache d)) \<Longrightarrow> distinct (map c_key (cache (fst (clear_expired_cache d now))))"
  by (simp add: clear_expired_cache_def distinct_map_filter)

lemma cache_get_None_iff:
  "cache_get d key now = None \<longleftrightarrow> \<not> (\<exists>r \<in> set (cache d). c_key r = key \<and> now < c_expiry r)"
proof -
  have "cache_get d key now = None \<longleftrightarrow>
      find (\<lambda>r. c_key r = key \<and> now < c_expiry r) (cache d) = None"
    by (simp add: cache_get_def split: option.splits)
  then show ?thesis by (auto simp: find_None_iff)
qed

lemma cache_get_Some_iff:
  assumes "distinct (map c_key (cache d))"
  shows "cache_get d key now = Some v \<longleftrightarrow>
     (\<exists>r \<in> set (cache d). c_key r = key \<and> c_value r = v \<and> now < c_expiry r)"
proof
  assume "cache_get d key now = Some v"
  then obtain r where "find (\<lambda>r. c_key r = key \<and> now < c_expiry r) (cache d) = Some r" "c_value r = v"
    by (auto simp: cache_get_def split: option.splits)
  then show "\<exists>r \<in> set (cache d). c_key r = key \<and> c_value r = v \<and> now < c_expiry r"
    by (auto simp: find_Some_iff)
next
  assume "\<exists>r \<in> set (cache d). c_key r = key \<and> c_value r = v \<and> now < c_expiry r"
  then obtain r where r: "r \<in> set (cache d)" "c_key r = key" "c_value r = v" "now < c_expiry r"
    by blast
  then have "cache_get d key now \<noteq> None" by (auto simp: cache_get_None_iff)
  then obtain r' where f: "find (\<lambda>r. c_key r = key \<and> now < c_expiry r) (cache d) = Some r'"
    by (auto simp: cache_get_def split: option.splits)
  then have r': "r' \<in> set (cache d)" "c_key r' = key"
    by (auto simp: find_Some_iff)
  from assms r(1,2) r' have "r' = r" by (auto simp: distinct_map inj_on_def)
  with f r(3) show "cache_get d key now = Some v" by (simp add: cache_get_def)
qed

lemma only_row_set:
  "cache_set d key v ttl t0 = Inr d1 \<Longrightarrow>
   only_row d1 key \<lparr>c_key = key, c_value = v, c_expiry = t0 + ttl * 1000000\<rparr> now"
  by (auto simp: cache_set_def only_row_def Let_def split: if_splits)

lemma only_row_other_set:
  "cache_set d k' v' ttl' t' = Inr d' \<Longrightarrow> k' \<noteq> key \<Longrightarrow> c_key row = key \<Longrightarrow>
   only_row d key row now \<Longrightarrow> only_row d' key row now"
  by (auto simp: cache_set_def only_row_def Let_def split: if_splits)

lemma only_row_sweep:
  "t \<le> now \<Longrightarrow> only_row d key row now \<Longrightarrow> only_row (fst (clear_expired_cache d t)) key row now"
  by (auto simp: clear_expired_cache_def only_row_def)

lemma only_row_ops:
  "run_cache_ops d ops = Inr d' \<Longrightarrow> \<forall>op \<in> set ops. \<not> sets_key key op \<and> op_time op \<le> now \<Longrightarrow>
   c_key row = key \<Longrightarrow> only_row d key row now \<Longrightarrow> only_row d' key row now"
proof (induction d ops rule: run_cache_ops.induct)
  case (1 d)
  then show ?case by simp
next
  case (2 d k v ttl t ops)
  from "2.prems"(1) obtain d1 where s: "cache_set d k v ttl t = Inr d1"
    and rest: "run_cache_ops d1 ops = Inr d'"
    by (auto split: sum.splits)
  from "2.prems"(2) have ne: "k \<noteq> key" by simp
  from only_row_other_set[OF s ne "2.prems"(3,4)] have "only_row d1 key row now" .
  with "2.IH"[OF s rest] "2.prems"(2,3) show ?case by simp
next
  case (3 d t ops)
  from "3.prems"(2) have "t \<le> now" by simp
  from only_row_sweep[OF this "3.prems"(4)] "3.IH" "3.prems" show ?case by simp
qed

lemma only_row_get:
  assumes "only_row d key row now" and "c_key row = key"
  shows "cache_get d key now = (if now < c_expiry row then Some (c_value row) else None)"
proof (cases "now < c_expiry row")
  case True
  with assms have "row \<in> set (cache d)" by (simp add: only_row_def)
  with True assms(2) have "cache_get d key now \<noteq> None" by (auto simp: cache_get_None_iff)
  then obtain r where f: "find (\<lambda>r. c_key r = key \<and> now < c_expiry r) (cache d) = Some r"
    by (auto simp: cache_get_def split: option.splits)
  then have "r \<in> set (cache d)" "c_key r = key" by (auto simp: find_Some_iff)
  with assms(1) have "r = row" by (simp add: only_row_def)
  with f True show ?thesis by (simp add: cache_get_def)
next
  case False
  with assms(1) have "cache_get d key now = None"
    unfolding cache_get_None_iff only_row_def by auto
  with False show ?thesis by simp
qed


text \<open>
  C8: on a cache table with a unique key column, \<^verbatim>\<open>cache_get\<close> returns a value
  exactly when a row of the key holds that value and expires strictly after the read
  time, and it reports absent exactly when no row of the key expires strictly after the
  read time. After a \<^verbatim>\<open>cache_set\<close> of a key at \<open>t0\<close> with a time to live, followed
  by any operations up to the read time that do not set that key (sets of other keys,
  sweeps), a read returns the stored value while the read time is before the expiry
  and absent from the expiry on.
\<close>

theorem cache_get_ttl:
  "(distinct (map c_key (cache d)) \<longrightarrow>
      (cache_get d key now = Some v \<longleftrightarrow>
         (\<exists>r \<in> set (cache d). c_key r = key \<and> c_value r = v \<and> now < c_expiry r)))
   \<and> (cache_get d key now = None \<longleftrightarrow>
         \<not> (\<exists>r \<in> set (cache d). c_key r = key \<and> now < c_expiry r))
   \<and> (cache_set d key v ttl t0 = Inr d1 \<and> run_cache_ops d1 ops = Inr d2
        \<and> (\<forall>op \<in> set ops. \<not> sets_key key op \<and> op_time op \<le> now)
      \<longrightarrow> cache_get d2 key now = (if now < t0 + ttl * 1000000 then Some v else None))"
proof -
  have "cache_get d2 key now = (if now < t0 + ttl * 1000000 then Some v else None)"
    if s: "cache_set d key v ttl t0 = Inr d1" and o: "run_cache_ops d1 ops = Inr d2"
      and c: "\<forall>op \<in> set ops. \<not> sets_key key op \<and> op_time op \<le> now"
  proof -
    let ?row = "\<lparr>c_key = key, c_value = v, c_expiry = t0 + ttl * 1000000\<rparr>"
    have k: "c_key ?row = key" by simp
    from only_row_ops[OF o c k only_row_set[OF s]] have "only_row d2 key ?row now" .
    from only_row_get[OF this k] show ?thesis by simp
  qed
  with cache_get_Some_iff[of d key now v] cache_get_None_iff[of d key now] show ?thesis by blast
qed

theorem cache_get_ttl_witness:
  "\<not> isl (cache_set empty_db ''url'' ''page'' 3600 1000)
   \<and> \<not> isl (run_cache_ops (projr (cache_set empty_db ''url'' ''page'' 3600 1000))
          [Set ''other'' ''x'' 10 2000, Sweep 3000])
   \<and> cache_get (projr (run_cache_ops (projr (cache_set empty_db ''url'' ''page'' 3600 1000))
          [Set ''other'' ''x'' 10 2000, Sweep 3000])) ''url'' 3599999999 = Some ''page''
   \<and> cache_get (projr (run_cache_ops (projr (cache_set empty_db ''url'' ''page'' 3600 1000))
          [Set ''other'' ''x'' 10 2000, Sweep 3000])) ''url'' 3600001000 = None"
proof -
  let ?s = "cache_set empty_db ''url'' ''page'' 3600 1000"
  let ?ops = "[Set ''other'' ''x'' 10 2000, Sweep 3000]"
  let ?o = "run_cache_ops (projr ?s) ?ops"
  have ok1: "\<not> isl ?s" by code_simp
  then have e1: "?s = Inr (projr ?s)" by simp
  have ok2: "\<not> isl ?o" by code_simp
  then have e2: "?o = Inr (projr ?o)" by simp
  have c1: "\<forall>op \<in> set ?ops. \<not> sets_key ''url'' op \<and> op_time op \<le> 3599999999" by simp
  have c2: "\<forall>op \<in> set ?ops. \<not> sets_key ''url'' op \<and> op_time op \<le> 3600001000" by simp
  from cache_get_ttl[of empty_db "''url''" 3599999999 "''page''" 3600 1000 "projr ?s" ?ops "projr ?o"]
    e1 e2 c1
  have a: "cache_get (projr ?o) ''url'' 3599999999 = Some ''page''" by simp
  from cache_get_ttl[of empty_db "''url''" 3600001000 "''page''" 3600 1000 "projr ?s" ?ops "projr ?o"]
    e1 e2 c2
  have b: "cache_get (projr ?o) ''url'' 3600001000 = None" by simp
  from ok1 ok2 a b show ?thesis by blast
qed

section \<open>Fetch orchestrator and sync ledger\<close>

















text \<open>
  C3: one adapter raises and the others succeed, and one of the successful adapters
  returns a record whose name is empty. The claim says that the sync completes with
  exactly one error. The key derivation raises on the empty name, so the sync is marked
  failed, no record is counted and the error list has two entries.
\<close>

theorem sync_blank_name_marked_failed:
  "res_errors (snd (sync_league_data empty_db blank_name_adapters ''MLS'' sample_clock))
     = [''fbref: Failed to fetch from FBref: timeout'', ''Sync failed: list index out of range'']
   \<and> map sh_status (sync_history (fst (sync_league_data empty_db blank_name_adapters ''MLS'' sample_clock)))
     = [''started'', ''failed'']
   \<and> res_total_players (snd (sync_league_data empty_db blank_name_adapters ''MLS'' sample_clock)) = 0"
  by code_simp


text \<open>
  When the merge raises nothing, the sync does complete with one error entry naming
  the adapter that raised (\<open>sync_league_data_completed\<close> with the two lemmas below).
\<close>

lemma sync_one_adapter_down_completes:
  "res_errors (snd (sync_league_data empty_db one_adapter_down ''MLS'' sample_clock))
     = [''fbref: Failed to fetch from FBref: timeout'']
   \<and> res_sources (snd (sync_league_data empty_db one_adapter_down ''MLS'' sample_clock))
     = [(''transfermarkt'', 1), (''sofascore'', 1)]
   \<and> res_total_players (snd (sync_league_data empty_db one_adapter_down ''MLS'' sample_clock)) = 1"
  by code_simp

lemma one_failing_adapter:
  assumes "fbref ad lg = Inl e" and "transfermarkt ad lg = Inr d2" and "sofascore ad lg = Inr d3"
    and "asa ad = None"
  shows "fetch_errors ad lg = [''fbref: Failed to fetch from FBref: '' @ e]"
    and "source_data_of ad lg = [(''fbref'', []), (''transfermarkt'', d2), (''sofascore'', d3)]"
  using assms
  by (simp_all add: fetch_errors_def source_data_of_def submit_all_def error_entries_def
        fetch_with_error_handling_def)





section \<open>Rating back-fill\<close>


lemma set_update_cases:
  "(a, b) \<in> set (AList.update k v al) \<Longrightarrow> (a, b) = (k, v) \<or> (a, b) \<in> set al"
  by (induction al) (auto split: if_splits)




text \<open>
  A record in which no candidate has left a rating has no stored record with a rating
  either, so after the first loop the back-fill changes nothing.
\<close>

lemma rating_invariant_step:
  assumes "merge_player_info m p src = Inr m'" and "rating_invariant m"
  shows "rating_invariant m'"
proof -
  have "''rating'' \<in> set field_names" by (simp add: field_names_def)
  from merge_player_info_field[OF assms(1) this]
  have st: "merge_field_val p ''rating'' (attrs m ''rating'') = Inr (attrs m' ''rating'')" .
  have src: "sources m' = AList.update src p (sources m)"
    using assms(1) by (rule merge_player_info_sources)
  show ?thesis
    unfolding rating_invariant_def
  proof (intro impI)
    assume none: "attrs m' ''rating'' = None"
    with st have old: "attrs m ''rating'' = None"
      by (auto simp: merge_field_val_def split: option.splits val.splits if_splits sum.splits)
    with st none have new: "p ''rating'' = None \<or> p ''rating'' = Some VNone"
      by (auto simp: merge_field_val_def split: option.splits val.splits if_splits)
    from old assms(2) have
      "\<forall>(src, s) \<in> set (sources m). s ''rating'' = None \<or> s ''rating'' = Some VNone"
      by (simp add: rating_invariant_def)
    moreover have "set (AList.update src p (sources m)) \<subseteq> insert (src, p) (set (sources m))"
      using set_update_cases[of _ _ src p "sources m"] by auto
    ultimately show "\<forall>(src, s) \<in> set (sources m'). s ''rating'' = None \<or> s ''rating'' = Some VNone"
      using new unfolding src by blast
  qed
qed

lemma rating_invariant_fold:
  "fold_cluster m cs = Inr m' \<Longrightarrow> rating_invariant m \<Longrightarrow> rating_invariant m'"
proof (induction cs arbitrary: m)
  case Nil
  then show ?case by simp
next
  case (Cons c cs)
  obtain src p where c: "c = (src, p)" by (cases c)
  from Cons.prems(1) c obtain m1 where
    s1: "merge_player_info m p src = Inr m1" and s2: "fold_cluster m1 cs = Inr m'"
    by (auto split: sum.splits)
  from Cons.IH[OF s2 rating_invariant_step[OF s1 Cons.prems(2)]] show ?case .
qed

lemma rating_invariant_backfill:
  assumes "rating_invariant m"
  shows "backfill_rating m = Inr m"
proof (cases "attrs m ''rating'' = None")
  case True
  with assms have "\<forall>(src, s) \<in> set (sources m). s ''rating'' = None \<or> s ''rating'' = Some VNone"
    by (simp add: rating_invariant_def)
  then have "reported_ratings m = []"
    unfolding reported_ratings_def List.map_filter_def
    by (auto simp: filter_empty_conv split: option.splits)
  then show ?thesis by (simp add: backfill_rating_def)
next
  case False
  then show ?thesis by (auto simp: backfill_rating_def)
qed

lemma backfill_never_fires:
  assumes "merged_players sd lg now = Inr mp" and "(k, m) \<in> set mp"
  shows "backfill_rating m = Inr m"
proof -
  have "rating_invariant (new_cluster lg now)" by (simp add: rating_invariant_def new_cluster_def)
  from rating_invariant_fold[OF merged_players_cluster[OF assms] this]
  show ?thesis by (rule rating_invariant_backfill)
qed

lemma final_list_unchanged:
  "\<forall>m \<in> set ms. backfill_rating m = Inr m \<Longrightarrow> final_list ms = Inr ms"
  by (induction ms) auto

lemma merge_player_data_is_fold:
  assumes "merged_players sd lg now = Inr mp"
  shows "merge_player_data sd lg now = Inr (map snd mp)"
proof -
  have "\<forall>m \<in> set (map snd mp). backfill_rating m = Inr m"
    using backfill_never_fires[OF assms] by auto
  from final_list_unchanged[OF this] assms show ?thesis by (simp add: merge_player_data_def)
qed





end
